theory Spec2Isabelle
  imports Complex_Main "HOL-Library.Multiset"
begin

section \<open>Mana costs: the tokenizer of \<^verbatim>\<open>magic/mana.py\<close>\<close>

text \<open>
  Python strings are modelled as \<^typ>\<open>string\<close>. Every character outside ASCII behaves like
  any other character that none of the patterns below accepts, so the eight-bit characters
  of HOL lose nothing. The two exceptions the module can raise are values of \<open>error\<close>:
  \<open>InvalidManaCostException\<close> (the module's own \<open>ParseException\<close>) and the \<open>ValueError\<close>
  of \<^verbatim>\<open>list.index\<close>; \<open>IndexError\<close> is that of \<^verbatim>\<open>[0]\<close> on an empty list.
\<close>

datatype error = InvalidManaCostException | ValueError | IndexError

subsection \<open>The character classes\<close>

text \<open>
  \<^verbatim>\<open>re.match(DIGIT, c)\<close> and its siblings are applied to a one-character string \<open>c\<close>; the
  patterns are \<^verbatim>\<open>[0-9]\<close>, \<^verbatim>\<open>[WURBGCS]\<close>, \<^verbatim>\<open>[XYZ]\<close>, \<^verbatim>\<open>/\<close>, \<^verbatim>\<open>P\<close> and \<^verbatim>\<open>H\<close>.
\<close>

definition re_DIGIT :: "char \<Rightarrow> bool" where
  "re_DIGIT c = (c \<in> set ''0123456789'')"

definition re_COLOR :: "char \<Rightarrow> bool" where
  "re_COLOR c = (c \<in> set ''WURBGCS'')"

definition re_X :: "char \<Rightarrow> bool" where
  "re_X c = (c \<in> set ''XYZ'')"

definition re_SLASH :: "char \<Rightarrow> bool" where
  "re_SLASH c = (c = CHR ''/'')"

definition re_MODIFIER :: "char \<Rightarrow> bool" where
  "re_MODIFIER c = (c = CHR ''P'')"

definition re_HALF :: "char \<Rightarrow> bool" where
  "re_HALF c = (c = CHR ''H'')"

subsection \<open>\<^verbatim>\<open>parse\<close>\<close>

text \<open>
  The variable \<^verbatim>\<open>mode\<close> holds one of the six constants \<^verbatim>\<open>START\<close>, \<^verbatim>\<open>DIGIT\<close>, \<^verbatim>\<open>COLOR\<close>,
  \<^verbatim>\<open>SLASH\<close>, \<^verbatim>\<open>HALF\<close>, \<^verbatim>\<open>HYBRID\<close>, which are pairwise different strings. The loop variables
  \<^verbatim>\<open>tmp\<close>, \<^verbatim>\<open>tokens\<close> and \<^verbatim>\<open>mode\<close> form the state of the scan.
\<close>

datatype mode = START | DIGIT | COLOR | SLASH | HALF | HYBRID

record scan =
  tmp :: string
  tokens :: "string list"
  mode :: mode

definition stripped :: "string \<Rightarrow> string" where
  \<comment> \<open>\<^verbatim>\<open>s.replace('{', '').replace('}', '')\<close>\<close>
  "stripped s = filter (\<lambda>c. c \<noteq> CHR ''}'') (filter (\<lambda>c. c \<noteq> CHR ''{'') s)"

text \<open>One iteration of the \<^verbatim>\<open>for c in list(stripped)\<close> loop; the branches are in source order.\<close>

definition step :: "scan \<Rightarrow> char \<Rightarrow> error + scan" where
  "step st c =
    (case mode st of
       START \<Rightarrow>
         if re_DIGIT c then Inr (st\<lparr>tmp := tmp st @ [c], mode := DIGIT\<rparr>)
         else if re_COLOR c then Inr (st\<lparr>tmp := tmp st @ [c], mode := COLOR\<rparr>)
         else if re_X c then Inr (st\<lparr>tokens := tokens st @ [[c]], tmp := [], mode := START\<rparr>)
         else if re_HALF c then Inr (st\<lparr>tmp := tmp st @ [c], mode := HALF\<rparr>)
         else Inl InvalidManaCostException
     | DIGIT \<Rightarrow>
         if re_DIGIT c then Inr (st\<lparr>tmp := tmp st @ [c]\<rparr>)
         else if re_COLOR c \<or> re_X c then Inr (st\<lparr>tokens := tokens st @ [tmp st], tmp := [c], mode := COLOR\<rparr>)
         else if re_SLASH c then Inr (st\<lparr>tmp := tmp st @ [c], mode := SLASH\<rparr>)
         else Inl InvalidManaCostException
     | COLOR \<Rightarrow>
         if re_COLOR c then Inr (st\<lparr>tokens := tokens st @ [tmp st], tmp := [c], mode := COLOR\<rparr>)
         else if re_SLASH c then Inr (st\<lparr>tmp := tmp st @ [c], mode := SLASH\<rparr>)
         else Inl InvalidManaCostException
     | SLASH \<Rightarrow>
         if re_MODIFIER c then Inr (st\<lparr>tokens := tokens st @ [tmp st @ [c]], tmp := [], mode := START\<rparr>)
         else if re_COLOR c then Inr (st\<lparr>tmp := tmp st @ [c], mode := HYBRID\<rparr>)
         else Inl InvalidManaCostException
     | HALF \<Rightarrow>
         if re_COLOR c then Inr (st\<lparr>tokens := tokens st @ [tmp st @ [c]], tmp := [], mode := START\<rparr>)
         else Inl InvalidManaCostException
     | HYBRID \<Rightarrow>
         if re_SLASH c then Inr (st\<lparr>tmp := tmp st @ [c], mode := SLASH\<rparr>)
         else if re_DIGIT c then Inr (st\<lparr>tokens := tokens st @ [tmp st], tmp := [c], mode := DIGIT\<rparr>)
         else if re_COLOR c then Inr (st\<lparr>tokens := tokens st @ [tmp st], tmp := [c], mode := COLOR\<rparr>)
         else if re_X c then Inr (st\<lparr>tokens := tokens st @ [tmp st] @ [[c]], tmp := [], mode := START\<rparr>)
         else if re_HALF c then Inr (st\<lparr>tokens := tokens st @ [tmp st], tmp := [c], mode := HALF\<rparr>)
         else Inl InvalidManaCostException)"

text \<open>The loop: a raised exception ends it at once.\<close>

fun scan_chars :: "scan \<Rightarrow> string \<Rightarrow> error + scan" where
  "scan_chars st [] = Inr st"
| "scan_chars st (c # cs) =
     (case step st c of Inl e \<Rightarrow> Inl e | Inr st' \<Rightarrow> scan_chars st' cs)"

definition initial :: scan where
  "initial = \<lparr>tmp = [], tokens = [], mode = START\<rparr>"

definition parse :: "string \<Rightarrow> error + string list" where
  "parse s =
    (case scan_chars initial (stripped s) of
       Inl e \<Rightarrow> Inl e
     | Inr st \<Rightarrow> Inr (if tmp st \<noteq> [] then tokens st @ [tmp st] else tokens st))"

subsection \<open>The classifier predicates\<close>

text \<open>
  Each predicate is \<^verbatim>\<open>bool(re.match(pattern, symbol))\<close>. The patterns are built from character
  classes, literals, sequencing, one optional group, one \<^verbatim>\<open>+\<close> and the anchors. A matcher maps a
  string to the remainders that can be left after matching a prefix of it, the preferred one
  first; \<^verbatim>\<open>re.match\<close> succeeds when there is one. The anchor \<^verbatim>\<open>^\<close> holds at the position where
  \<^verbatim>\<open>re.match\<close> starts. Without the \<^verbatim>\<open>MULTILINE\<close> flag, Python's \<^verbatim>\<open>$\<close> matches at the end of the
  string and also just before a newline that is the last character of the string.
\<close>

type_synonym matcher = "string \<Rightarrow> string list"

definition cls :: "(char \<Rightarrow> bool) \<Rightarrow> matcher" where
  "cls p s = (case s of [] \<Rightarrow> [] | c # r \<Rightarrow> if p c then [r] else [])"

definition lit :: "char \<Rightarrow> matcher" where
  "lit x = cls (\<lambda>c. c = x)"

definition seq :: "matcher \<Rightarrow> matcher \<Rightarrow> matcher" where
  "seq m n s = concat (map n (m s))"

definition opt :: "matcher \<Rightarrow> matcher" where
  "opt m s = m s @ [s]"

fun plus_cls :: "(char \<Rightarrow> bool) \<Rightarrow> matcher" where
  "plus_cls p [] = []"
| "plus_cls p (c # r) = (if p c then plus_cls p r @ [r] else [])"

definition bol :: matcher where
  "bol s = [s]"

definition eol :: matcher where
  "eol s = (if s = [] \<or> s = [CHR 0x0A] then [s] else [])"

definition re_match :: "matcher \<Rightarrow> string \<Rightarrow> bool" where
  "re_match m s = (m s \<noteq> [])"

definition generic :: "string \<Rightarrow> bool" where
  \<comment> \<open>\<^verbatim>\<open>^[0-9]+$\<close>\<close>
  "generic symbol = re_match (seq bol (seq (plus_cls re_DIGIT) eol)) symbol"

definition variable :: "string \<Rightarrow> bool" where
  \<comment> \<open>\<^verbatim>\<open>^[XYZ]$\<close>\<close>
  "variable symbol = re_match (seq bol (seq (cls re_X) eol)) symbol"

definition phyrexian :: "string \<Rightarrow> bool" where
  \<comment> \<open>\<^verbatim>\<open>^([WURBGCS]/)?[WURBGCS]/P$\<close>\<close>
  "phyrexian symbol =
     re_match (seq bol (seq (opt (seq (cls re_COLOR) (lit CHR ''/'')))
       (seq (cls re_COLOR) (seq (lit CHR ''/'') (seq (lit CHR ''P'') eol))))) symbol"

definition hybrid :: "string \<Rightarrow> bool" where
  \<comment> \<open>\<^verbatim>\<open>^[WURBGCS]/[WURBGCS](/P)?$\<close>\<close>
  "hybrid symbol =
     re_match (seq bol (seq (cls re_COLOR) (seq (lit CHR ''/'') (seq (cls re_COLOR)
       (seq (opt (seq (lit CHR ''/'') (lit CHR ''P''))) eol))))) symbol"

definition twobrid :: "string \<Rightarrow> bool" where
  \<comment> \<open>\<^verbatim>\<open>^2/[WURBGCS]$\<close>\<close>
  "twobrid symbol =
     re_match (seq bol (seq (lit CHR ''2'') (seq (lit CHR ''/'') (seq (cls re_COLOR) eol)))) symbol"

definition half :: "string \<Rightarrow> bool" where
  \<comment> \<open>\<^verbatim>\<open>^H[WURBGCS]$\<close>\<close>
  "half symbol = re_match (seq bol (seq (lit CHR ''H'') (seq (cls re_COLOR) eol))) symbol"

definition colored :: "string \<Rightarrow> bool" where
  \<comment> \<open>\<^verbatim>\<open>^[WURBGCS]$\<close>\<close>
  "colored symbol = re_match (seq bol (seq (cls re_COLOR) eol)) symbol"

subsection \<open>\<^verbatim>\<open>colored_symbols\<close> and \<^verbatim>\<open>colors\<close>\<close>

text \<open>
  The dictionary with the two keys \<^verbatim>\<open>'required'\<close> and \<^verbatim>\<open>'also'\<close> is a record; its values are
  lists in \<^verbatim>\<open>colored_symbols\<close> and sets in \<^verbatim>\<open>colors\<close>.
\<close>

record 'a by_need =
  required :: 'a
  also_touched :: 'a

fun split :: "char \<Rightarrow> string \<Rightarrow> string list" where
  \<comment> \<open>\<^verbatim>\<open>symbol.split(sep)\<close> for a one-character separator\<close>
  "split sep [] = [[]]"
| "split sep (c # cs) =
     (if c = sep then [] # split sep cs
      else (case split sep cs of [] \<Rightarrow> [[c]] | p # ps \<Rightarrow> (c # p) # ps))"

definition item :: "'a list \<Rightarrow> nat \<Rightarrow> error + 'a" where
  \<comment> \<open>\<^verbatim>\<open>xs[i]\<close> for \<open>i \<ge> 0\<close>\<close>
  "item xs i = (if i < length xs then Inr (xs ! i) else Inl IndexError)"

definition char_at :: "string \<Rightarrow> nat \<Rightarrow> error + string" where
  \<comment> \<open>\<^verbatim>\<open>symbol[i]\<close>: a string of one character\<close>
  "char_at s i = (if i < length s then Inr [s ! i] else Inl IndexError)"

definition colored_symbols_step :: "string list by_need \<Rightarrow> string \<Rightarrow> error + string list by_need" where
  "colored_symbols_step cs symbol =
    (if generic symbol \<or> variable symbol then Inr cs
     else if hybrid symbol then
       (let parts = split CHR ''/'' symbol in
        case item parts 0 of Inl e \<Rightarrow> Inl e | Inr p0 \<Rightarrow>
        case item parts 1 of Inl e \<Rightarrow> Inl e | Inr p1 \<Rightarrow>
          Inr (cs\<lparr>also_touched := also_touched cs @ [p0] @ [p1]\<rparr>))
     else if phyrexian symbol then
       (case char_at symbol 0 of Inl e \<Rightarrow> Inl e | Inr a \<Rightarrow>
          Inr (cs\<lparr>also_touched := also_touched cs @ [a]\<rparr>))
     else if twobrid symbol then
       (let parts = split CHR ''/'' symbol in
        case item parts 1 of Inl e \<Rightarrow> Inl e | Inr p1 \<Rightarrow>
          Inr (cs\<lparr>also_touched := also_touched cs @ [p1]\<rparr>))
     else if colored symbol then Inr (cs\<lparr>required := required cs @ [symbol]\<rparr>)
     else Inl InvalidManaCostException)"

fun colored_symbols_loop :: "string list by_need \<Rightarrow> string list \<Rightarrow> error + string list by_need" where
  "colored_symbols_loop cs [] = Inr cs"
| "colored_symbols_loop cs (symbol # symbols) =
     (case colored_symbols_step cs symbol of
        Inl e \<Rightarrow> Inl e
      | Inr cs' \<Rightarrow> colored_symbols_loop cs' symbols)"

definition colored_symbols :: "string list \<Rightarrow> error + string list by_need" where
  "colored_symbols symbols = colored_symbols_loop \<lparr>required = [], also_touched = []\<rparr> symbols"

definition colors_from_colored_symbols :: "string list by_need \<Rightarrow> string set by_need" where
  "colors_from_colored_symbols all_colored_symbols =
     \<lparr>required = set (required all_colored_symbols),
      also_touched = set (also_touched all_colored_symbols)\<rparr>"

definition colors :: "string list \<Rightarrow> error + string set by_need" where
  "colors symbols =
     (case colored_symbols symbols of
        Inl e \<Rightarrow> Inl e
      | Inr cs \<Rightarrow> Inr (colors_from_colored_symbols cs))"

subsection \<open>\<^verbatim>\<open>cmc\<close>\<close>

text \<open>
  \<^verbatim>\<open>int(symbol)\<close> is only reached when \<^verbatim>\<open>generic(symbol)\<close> holds: the symbol is a run of
  decimal digits (with at most a final newline, which \<^verbatim>\<open>int\<close> ignores).

  The total is a Python float. Every value added is an integer or \<open>1/2\<close>, and the arithmetic
  of doubles on such values is exact as long as the totals stay below \<open>2^52\<close>; the model
  computes with rational numbers and so describes the code in that range. Beyond it the
  float is rounded, which the model leaves out.
\<close>

definition digit_value :: "char \<Rightarrow> int" where
  "digit_value c = int (of_char c) - 48"

definition py_int :: "string \<Rightarrow> int" where
  "py_int symbol = foldl (\<lambda>n c. 10 * n + digit_value c) 0 (takeWhile re_DIGIT symbol)"

fun cmc_loop :: "rat \<Rightarrow> string list \<Rightarrow> error + rat" where
  "cmc_loop tot [] = Inr tot"
| "cmc_loop tot (symbol # symbols) =
     (if generic symbol then cmc_loop (tot + of_int (py_int symbol)) symbols
      else if twobrid symbol then cmc_loop (tot + 2) symbols
      else if half symbol then cmc_loop (tot + 1 / 2) symbols
      else if variable symbol then cmc_loop (tot + 0) symbols
      else if phyrexian symbol \<or> hybrid symbol \<or> colored symbol then cmc_loop (tot + 1) symbols
      else Inl InvalidManaCostException)"

definition cmc :: "string \<Rightarrow> error + rat" where
  "cmc mana_cost =
     (case parse mana_cost of
        Inl e \<Rightarrow> Inl e
      | Inr symbols \<Rightarrow> cmc_loop 0 symbols)"

subsection \<open>\<^verbatim>\<open>order_score\<close>, \<^verbatim>\<open>order\<close> and \<^verbatim>\<open>sort_score\<close>\<close>

text \<open>
  Symbols are Python strings, compared by equality; \<^verbatim>\<open>list.index\<close> raises \<open>ValueError\<close> on a
  value that is not in the list. Python's integers are unbounded.
\<close>

fun index :: "'a list \<Rightarrow> 'a \<Rightarrow> error + int" where
  "index [] x = Inl ValueError"
| "index (y # ys) x =
     (if y = x then Inr 0
      else (case index ys x of Inl e \<Rightarrow> Inl e | Inr i \<Rightarrow> Inr (i + 1)))"

definition positions :: "string list" where
  \<comment> \<open>the local list of \<^verbatim>\<open>order_score\<close>\<close>
  "positions = [''W'', ''U'', ''B'', ''R'', ''G'']"

text \<open>The \<^verbatim>\<open>for symbol in symbols[1:]\<close> loop, with its variables \<^verbatim>\<open>score\<close> and \<^verbatim>\<open>current\<close>.\<close>

fun order_score_loop :: "int \<Rightarrow> int \<Rightarrow> string list \<Rightarrow> error + int" where
  "order_score_loop score current [] = Inr score"
| "order_score_loop score current (symbol # symbols) =
     (case index positions symbol of
        Inl e \<Rightarrow> Inl e
      | Inr position \<Rightarrow>
          (let distance = position - current;
               distance = (if position < current then distance + int (length positions) else distance)
           in order_score_loop (score + distance) position symbols))"

definition order_score :: "string list \<Rightarrow> error + int" where
  "order_score initial_symbols =
    (let symbols = filter (\<lambda>symbol. symbol \<notin> set [''C'', ''S'']) initial_symbols in
     case symbols of
       [] \<Rightarrow> Inr 0
     | first # rest \<Rightarrow>
         (case index positions first of
            Inl e \<Rightarrow> Inl e
          | Inr current \<Rightarrow>
              (case order_score_loop 0 current rest of
                 Inl e \<Rightarrow> Inl e
               | Inr score \<Rightarrow>
                   (case index positions first of
                      Inl e \<Rightarrow> Inl e
                    | Inr i \<Rightarrow> Inr (score * 10 + i)))))"

text \<open>
  \<^verbatim>\<open>itertools.permutations(iterable, r)\<close> yields the \<open>r\<close>-tuples of elements at pairwise different
  positions, in lexicographic order of the positions; \<open>r\<close> defaults to the length of the input.
  \<open>picks\<close> lists every element together with the others, by position.
\<close>

fun picks :: "'a list \<Rightarrow> ('a \<times> 'a list) list" where
  "picks [] = []"
| "picks (x # xs) = (x, xs) # map (\<lambda>p. (fst p, x # snd p)) (picks xs)"

fun permutations_r :: "nat \<Rightarrow> 'a list \<Rightarrow> 'a list list" where
  "permutations_r 0 xs = [[]]"
| "permutations_r (Suc r) xs =
     concat (map (\<lambda>p. map ((#) (fst p)) (permutations_r r (snd p))) (picks xs))"

definition permutations :: "'a list \<Rightarrow> 'a list list" where
  "permutations xs = permutations_r (length xs) xs"

text \<open>
  \<^verbatim>\<open>sorted(xs, key=f)\<close> calls \<open>f\<close> once on every element, in order (an exception of \<open>f\<close> is an
  exception of \<^verbatim>\<open>sorted\<close>), and then sorts stably by the keys.
\<close>

fun keyed :: "('a \<Rightarrow> error + int) \<Rightarrow> 'a list \<Rightarrow> error + (int \<times> 'a) list" where
  "keyed key [] = Inr []"
| "keyed key (x # xs) =
     (case key x of
        Inl e \<Rightarrow> Inl e
      | Inr k \<Rightarrow> (case keyed key xs of Inl e \<Rightarrow> Inl e | Inr kxs \<Rightarrow> Inr ((k, x) # kxs)))"

definition sorted_key :: "('a \<Rightarrow> error + int) \<Rightarrow> 'a list \<Rightarrow> error + 'a list" where
  "sorted_key key xs =
     (case keyed key xs of Inl e \<Rightarrow> Inl e | Inr kxs \<Rightarrow> Inr (map snd (sort_key fst kxs)))"

definition order :: "string list \<Rightarrow> error + string list" where
  "order symbols =
     (case sorted_key order_score (permutations symbols) of
        Inl e \<Rightarrow> Inl e
      | Inr ps \<Rightarrow> item ps 0)"

definition sort_positions :: "string option list" where
  \<comment> \<open>the local list \<^verbatim>\<open>positions\<close> of \<^verbatim>\<open>sort_score\<close>, whose first entry is \<^verbatim>\<open>None\<close>\<close>
  "sort_positions =
     [None, Some ''C'', Some ''S'', Some ''W'', Some ''U'', Some ''B'', Some ''R'', Some ''G'']"

text \<open>The loop over \<^verbatim>\<open>enumerate(reversed(symbols), start=1)\<close>, with \<^verbatim>\<open>score\<close> and the counter \<open>i\<close>.\<close>

fun sort_score_loop :: "int \<Rightarrow> int \<Rightarrow> string list \<Rightarrow> error + int" where
  "sort_score_loop score i [] = Inr score"
| "sort_score_loop score i (symbol # symbols) =
     (case index sort_positions (Some symbol) of
        Inl e \<Rightarrow> Inl e
      | Inr p \<Rightarrow> sort_score_loop (score + p * 10 * i) (i + 1) symbols)"

definition sort_score :: "string list \<Rightarrow> error + int" where
  "sort_score symbols = sort_score_loop 0 1 (rev symbols)"

section \<open>The specification's reading of the engine\<close>

subsection \<open>Token shapes\<close>

text \<open>
  The shapes a token can have according to the data model: one or more decimal digits; one
  of \<open>X\<close>, \<open>Y\<close>, \<open>Z\<close>; one colour letter; \<open>H\<close> and a colour letter; two colour letters joined by
  a slash, with or without a trailing \<open>/P\<close>; \<open>2/\<close> and a colour letter; a colour letter and
  \<open>/P\<close>.
\<close>

datatype shape =
  Generic nat
| Variable
| Colored char
| HalfColored char
| Hybrid char char
| HybridPhyrexian char char
| Twobrid char
| Phyrexian char

definition decimal :: "string \<Rightarrow> nat" where
  "decimal ds = foldl (\<lambda>n c. 10 * n + (of_char c - 48)) 0 ds"

fun letters_shape :: "string \<Rightarrow> shape option" where
  "letters_shape [x] =
     (if re_X x then Some Variable else if re_COLOR x then Some (Colored x) else None)"
| "letters_shape [h, a] =
     (if h = CHR ''H'' \<and> re_COLOR a then Some (HalfColored a) else None)"
| "letters_shape [a, s, b] =
     (if s = CHR ''/'' \<and> re_COLOR a \<and> re_COLOR b then Some (Hybrid a b)
      else if s = CHR ''/'' \<and> a = CHR ''2'' \<and> re_COLOR b then Some (Twobrid b)
      else if s = CHR ''/'' \<and> re_COLOR a \<and> b = CHR ''P'' then Some (Phyrexian a)
      else None)"
| "letters_shape [a, s, b, s', m] =
     (if s = CHR ''/'' \<and> s' = CHR ''/'' \<and> m = CHR ''P'' \<and> re_COLOR a \<and> re_COLOR b
      then Some (HybridPhyrexian a b) else None)"
| "letters_shape t = None"

definition shape_of :: "string \<Rightarrow> shape option" where
  "shape_of t =
     (if t \<noteq> [] \<and> list_all re_DIGIT t then Some (Generic (decimal t)) else letters_shape t)"

subsection \<open>Cost value by shape\<close>




subsection \<open>Colour policy by shape\<close>

fun shape_colors :: "shape \<Rightarrow> (string set by_need) option" where
  "shape_colors (Generic n) = Some \<lparr>required = {}, also_touched = {}\<rparr>"
| "shape_colors Variable = Some \<lparr>required = {}, also_touched = {}\<rparr>"
| "shape_colors (Hybrid a b) = Some \<lparr>required = {}, also_touched = {[a], [b]}\<rparr>"
| "shape_colors (HybridPhyrexian a b) = Some \<lparr>required = {}, also_touched = {[a], [b]}\<rparr>"
| "shape_colors (Phyrexian a) = Some \<lparr>required = {}, also_touched = {[a]}\<rparr>"
| "shape_colors (Twobrid a) = Some \<lparr>required = {}, also_touched = {[a]}\<rparr>"
| "shape_colors (Colored a) = Some \<lparr>required = {[a]}, also_touched = {}\<rparr>"
| "shape_colors (HalfColored a) = None"

definition token_colors :: "string \<Rightarrow> (string set by_need) option" where
  "token_colors t = (case shape_of t of None \<Rightarrow> None | Some sh \<Rightarrow> shape_colors sh)"

fun classify_colors_spec :: "string list \<Rightarrow> error + string set by_need" where
  "classify_colors_spec [] = Inr \<lparr>required = {}, also_touched = {}\<rparr>"
| "classify_colors_spec (t # ts) =
     (case token_colors t of
        None \<Rightarrow> Inl InvalidManaCostException
      | Some c \<Rightarrow>
          (case classify_colors_spec ts of
             Inl e \<Rightarrow> Inl e
           | Inr cs \<Rightarrow>
               Inr \<lparr>required = required c \<union> required cs,
                    also_touched = also_touched c \<union> also_touched cs\<rparr>))"

subsection \<open>Wheel distance and sort key\<close>

definition wheel_index :: "string \<Rightarrow> int" where
  \<comment> \<open>the cycle \<open>W = 0\<close>, \<open>U = 1\<close>, \<open>B = 2\<close>, \<open>R = 3\<close>, \<open>G = 4\<close>\<close>
  "wheel_index c =
     (if c = ''W'' then 0 else if c = ''U'' then 1 else if c = ''B'' then 2
      else if c = ''R'' then 3 else 4)"

definition forward_distance :: "string \<Rightarrow> string \<Rightarrow> int" where
  "forward_distance a b =
     (let d = wheel_index b - wheel_index a in if d < 0 then d + 5 else d)"

definition wheel_score :: "string list \<Rightarrow> int" where
  "wheel_score symbols =
     (let cs = filter (\<lambda>c. c \<noteq> ''C'' \<and> c \<noteq> ''S'') symbols in
      if cs = [] then 0
      else sum_list (map (\<lambda>p. forward_distance (fst p) (snd p)) (zip cs (tl cs))) * 10
           + wheel_index (hd cs))"

definition priority :: "string \<Rightarrow> int" where
  \<comment> \<open>the index in \<open>[none, C, S, W, U, B, R, G]\<close>\<close>
  "priority c =
     (if c = ''C'' then 1 else if c = ''S'' then 2 else if c = ''W'' then 3
      else if c = ''U'' then 4 else if c = ''B'' then 5 else if c = ''R'' then 6 else 7)"

definition sort_score_spec :: "string list \<Rightarrow> int" where
  "sort_score_spec symbols =
     sum_list (map (\<lambda>i. priority (rev symbols ! i) * 10 * (int i + 1)) [0..<length symbols])"

definition color_symbols :: "string set" where
  "color_symbols = set [''W'', ''U'', ''B'', ''R'', ''G'', ''C'', ''S'']"

section \<open>Properties of the tokenizer\<close>

text \<open>What the scan has consumed so far, and the invariant of the loop.\<close>

definition consumed :: "scan \<Rightarrow> string" where
  "consumed st = concat (tokens st) @ tmp st"

definition scan_inv :: "scan \<Rightarrow> bool" where
  "scan_inv st = (((mode st = START) = (tmp st = [])) \<and> [] \<notin> set (tokens st))"

lemma step_consumed:
  assumes "step st c = Inr st'" and "scan_inv st"
  shows "consumed st' = consumed st @ [c] \<and> scan_inv st'"
  using assms
  by (cases "mode st") (auto simp: step_def consumed_def scan_inv_def split: if_splits)

lemma scan_chars_consumed:
  "scan_chars st cs = Inr st' \<Longrightarrow> scan_inv st \<Longrightarrow>
     consumed st' = consumed st @ cs \<and> scan_inv st'"
proof (induction cs arbitrary: st)
  case Nil
  then show ?case by simp
next
  case (Cons c cs)
  from Cons.prems(1) obtain st1
    where s1: "step st c = Inr st1" and s2: "scan_chars st1 cs = Inr st'"
    by (auto split: sum.splits)
  from step_consumed[OF s1 Cons.prems(2)]
  have c1: "consumed st1 = consumed st @ [c]" and i1: "scan_inv st1"
    by simp_all
  from Cons.IH[OF s2 i1] c1 show ?case by simp
qed

lemma scan_inv_initial: "scan_inv initial"
  by (simp add: scan_inv_def initial_def)

lemma parse_scan:
  "parse s = Inr toks \<Longrightarrow>
     \<exists>st. scan_chars initial (stripped s) = Inr st \<and>
          toks = (if tmp st \<noteq> [] then tokens st @ [tmp st] else tokens st)"
  by (auto simp: parse_def split: sum.splits)

text \<open>
  C1. Whenever \<^verbatim>\<open>parse\<close> returns, the tokens joined with no separator are the input without
  its braces: nothing is dropped, added or repeated. No token is empty.
\<close>

theorem parse_roundtrip:
  assumes "parse s = Inr toks"
  shows "concat toks = stripped s \<and> [] \<notin> set toks"
proof -
  from parse_scan[OF assms] obtain st where sc: "scan_chars initial (stripped s) = Inr st"
    and toks: "toks = (if tmp st \<noteq> [] then tokens st @ [tmp st] else tokens st)"
    by blast
  from scan_chars_consumed[OF sc scan_inv_initial]
  have "consumed st = stripped s" and "scan_inv st"
    by (simp_all add: consumed_def initial_def)
  with toks show ?thesis
    by (auto simp: consumed_def scan_inv_def)
qed

theorem parse_roundtrip_witness:
  "parse ''{2}{W/U}{X}'' = Inr [''2'', ''W/U'', ''X''] \<and>
   concat [''2'', ''W/U'', ''X''] = stripped ''{2}{W/U}{X}''"
proof -
  have p: "parse ''{2}{W/U}{X}'' = Inr [''2'', ''W/U'', ''X'']" by code_simp
  from parse_roundtrip[OF p] p show ?thesis by simp
qed

section \<open>Properties of the classifier\<close>

lemma plus_cls_iff:
  "r \<in> set (plus_cls p s) \<longleftrightarrow> (\<exists>ds. ds \<noteq> [] \<and> list_all p ds \<and> s = ds @ r)"
proof (induction s)
  case Nil
  then show ?case by simp
next
  case (Cons c s)
  show ?case
  proof (cases "p c")
    case False
    then show ?thesis by (auto simp: Cons_eq_append_conv)
  next
    case True
    have "(\<exists>ds. ds \<noteq> [] \<and> list_all p ds \<and> c # s = ds @ r) \<longleftrightarrow>
          (r = s \<or> (\<exists>ds. ds \<noteq> [] \<and> list_all p ds \<and> s = ds @ r))"
      (is "?L \<longleftrightarrow> ?R")
    proof
      assume ?L
      then obtain ds where d: "ds \<noteq> []" "list_all p ds" "c # s = ds @ r" by blast
      then obtain ds' where ds: "ds = c # ds'" by (cases ds) auto
      with d show ?R by (cases "ds' = []") auto
    next
      assume ?R
      then show ?L
      proof
        assume "r = s"
        with True have "[c] \<noteq> [] \<and> list_all p [c] \<and> c # s = [c] @ r" by simp
        then show ?L by blast
      next
        assume "\<exists>ds. ds \<noteq> [] \<and> list_all p ds \<and> s = ds @ r"
        then obtain ds where "ds \<noteq> []" "list_all p ds" "s = ds @ r" by blast
        with True have "c # ds \<noteq> [] \<and> list_all p (c # ds) \<and> c # s = (c # ds) @ r" by simp
        then show ?L by blast
      qed
    qed
    with True Cons.IH show ?thesis by auto
  qed
qed

lemma re_match_seq: "re_match (seq m n) s \<longleftrightarrow> (\<exists>r\<in>set (m s). re_match n r)"
  by (auto simp: re_match_def seq_def)

lemma set_seq: "set (seq m n s) = (\<Union>r\<in>set (m s). set (n r))"
  by (simp add: seq_def)

lemma set_cls: "set (cls p s) = {r. \<exists>c. s = c # r \<and> p c}"
  by (cases s) (auto simp: cls_def)

lemma set_lit: "set (lit x s) = {r. s = x # r}"
  by (auto simp: lit_def set_cls)

lemma set_opt: "set (opt m s) = insert s (set (m s))"
  by (simp add: opt_def)

lemma set_bol: "set (bol s) = {s}"
  by (simp add: bol_def)

lemma re_match_eol: "re_match eol r \<longleftrightarrow> r = [] \<or> r = [CHR 0x0A]"
  by (simp add: re_match_def eol_def)

lemmas re_simps = re_match_seq set_seq set_cls set_lit set_opt set_bol re_match_eol

lemma generic_iff:
  "generic t \<longleftrightarrow> (\<exists>ds r. t = ds @ r \<and> ds \<noteq> [] \<and> list_all re_DIGIT ds \<and> (r = [] \<or> r = [CHR 0x0A]))"
  unfolding generic_def by (simp add: re_simps plus_cls_iff Bex_def) blast

lemma variable_iff:
  "variable t \<longleftrightarrow> (\<exists>x r. t = x # r \<and> re_X x \<and> (r = [] \<or> r = [CHR 0x0A]))"
  unfolding variable_def by (simp add: re_simps Bex_def) blast

lemma colored_iff:
  "colored t \<longleftrightarrow> (\<exists>a r. t = a # r \<and> re_COLOR a \<and> (r = [] \<or> r = [CHR 0x0A]))"
  unfolding colored_def by (simp add: re_simps Bex_def) blast

lemma half_iff:
  "half t \<longleftrightarrow> (\<exists>a r. t = CHR ''H'' # a # r \<and> re_COLOR a \<and> (r = [] \<or> r = [CHR 0x0A]))"
  unfolding half_def by (simp add: re_simps Bex_def) blast

lemma twobrid_iff:
  "twobrid t \<longleftrightarrow> (\<exists>a r. t = CHR ''2'' # CHR ''/'' # a # r \<and> re_COLOR a \<and> (r = [] \<or> r = [CHR 0x0A]))"
  unfolding twobrid_def by (simp add: re_simps Bex_def) blast

lemma hybrid_iff:
  "hybrid t \<longleftrightarrow> (\<exists>a b r. t = a # CHR ''/'' # b # r \<and> re_COLOR a \<and> re_COLOR b \<and>
      (r = [] \<or> r = [CHR 0x0A] \<or> r = ''/P'' \<or> r = [CHR ''/'', CHR ''P'', CHR 0x0A]))"
  unfolding hybrid_def by (simp add: re_simps Bex_def) blast

lemma phyrexian_iff:
  "phyrexian t \<longleftrightarrow> (\<exists>a r. re_COLOR a \<and> (r = [] \<or> r = [CHR 0x0A]) \<and>
      (t = a # CHR ''/'' # CHR ''P'' # r \<or> (\<exists>b. re_COLOR b \<and> t = a # CHR ''/'' # b # CHR ''/'' # CHR ''P'' # r)))"
  unfolding phyrexian_def by (simp add: re_simps Bex_def) blast


lemma generic_head:
  assumes "generic t"
  shows "\<exists>d r. t = d # r \<and> re_DIGIT d \<and> (r = [] \<or> re_DIGIT (hd r) \<or> hd r = CHR 0x0A)"
proof -
  from assms obtain ds r where t: "t = ds @ r" "ds \<noteq> []" "list_all re_DIGIT ds"
    and r: "r = [] \<or> r = [CHR 0x0A]"
    by (auto simp: generic_iff)
  from t obtain d ds' where ds: "ds = d # ds'" by (cases ds) auto
  show ?thesis
  proof (cases ds')
    case Nil
    with t ds r show ?thesis by auto
  next
    case (Cons e es)
    with t ds show ?thesis by auto
  qed
qed

lemma class_disjoint:
  "\<not> (re_DIGIT c \<and> re_COLOR c)" "\<not> (re_DIGIT c \<and> re_X c)" "\<not> (re_COLOR c \<and> re_X c)"
  "\<not> re_DIGIT CHR ''H''" "\<not> re_COLOR CHR ''H''" "\<not> re_X CHR ''H''"
  "\<not> re_DIGIT CHR ''/''" "\<not> re_COLOR CHR ''/''" "\<not> re_X CHR ''/''"
  "\<not> re_DIGIT CHR ''P''" "\<not> re_COLOR CHR ''P''" "\<not> re_X CHR ''P''"
  "re_DIGIT CHR ''2''" "\<not> re_COLOR CHR ''2''" "\<not> re_X CHR ''2''"
  "\<not> re_DIGIT CHR 0x0A" "\<not> re_COLOR CHR 0x0A" "\<not> re_X CHR 0x0A"
  by (auto simp: re_DIGIT_def re_COLOR_def re_X_def)

lemma generic_excl:
  assumes "generic t"
  shows "\<not> variable t" "\<not> phyrexian t" "\<not> hybrid t" "\<not> twobrid t" "\<not> half t" "\<not> colored t"
  using generic_head[OF assms] class_disjoint
  by (auto simp: variable_iff phyrexian_iff hybrid_iff twobrid_iff half_iff colored_iff)

lemma variable_excl:
  assumes "variable t"
  shows "\<not> phyrexian t" "\<not> hybrid t" "\<not> twobrid t" "\<not> half t" "\<not> colored t"
  using assms class_disjoint
  by (auto simp: variable_iff phyrexian_iff hybrid_iff twobrid_iff half_iff colored_iff)

lemma twobrid_excl:
  assumes "twobrid t"
  shows "\<not> phyrexian t" "\<not> hybrid t" "\<not> half t" "\<not> colored t"
  using assms class_disjoint
  by (auto simp: phyrexian_iff hybrid_iff twobrid_iff half_iff colored_iff)

lemma half_excl:
  assumes "half t"
  shows "\<not> phyrexian t" "\<not> hybrid t" "\<not> colored t"
  using assms class_disjoint
  by (auto simp: phyrexian_iff hybrid_iff half_iff colored_iff)

lemma colored_excl:
  assumes "colored t"
  shows "\<not> phyrexian t" "\<not> hybrid t"
  using assms class_disjoint
  by (auto simp: phyrexian_iff hybrid_iff colored_iff)

lemma phyrexian_hybrid_iff:
  "phyrexian t \<and> hybrid t \<longleftrightarrow>
     (\<exists>a b r. re_COLOR a \<and> re_COLOR b \<and> t = a # CHR ''/'' # b # CHR ''/'' # CHR ''P'' # r \<and>
        (r = [] \<or> r = [CHR 0x0A]))"
  using class_disjoint by (auto simp: phyrexian_iff hybrid_iff)

text \<open>
  C3, as amended. \<^verbatim>\<open>phyrexian\<close> and \<^verbatim>\<open>hybrid\<close> both accept a hybrid-Phyrexian token \<open>A/B/P\<close>,
  and they overlap on nothing else; counting the two as one class, at most one of the
  classes generic, variable, Phyrexian-or-hybrid, two-brid, half, colored holds of a token.
\<close>

theorem classifier_exclusive_up_to_hybrid_phyrexian:
  "length (filter id
      [generic t, variable t, phyrexian t \<or> hybrid t, twobrid t, half t, colored t]) \<le> 1
   \<and> (phyrexian t \<and> hybrid t \<longleftrightarrow>
       (\<exists>a b r. re_COLOR a \<and> re_COLOR b \<and> t = a # CHR ''/'' # b # CHR ''/'' # CHR ''P'' # r \<and>
          (r = [] \<or> r = [CHR 0x0A])))"
proof -
  have "length (filter id
      [generic t, variable t, phyrexian t \<or> hybrid t, twobrid t, half t, colored t]) \<le> 1"
    using generic_excl[of t] variable_excl[of t] twobrid_excl[of t] half_excl[of t] colored_excl[of t]
    by auto
  with phyrexian_hybrid_iff[of t] show ?thesis by blast
qed

theorem classifier_exclusive_witness:
  "length (filter id
      [generic ''G/W/P'', variable ''G/W/P'', phyrexian ''G/W/P'' \<or> hybrid ''G/W/P'',
       twobrid ''G/W/P'', half ''G/W/P'', colored ''G/W/P'']) \<le> 1
   \<and> phyrexian ''G/W/P'' \<and> hybrid ''G/W/P''"
proof -
  have "phyrexian ''G/W/P'' \<and> hybrid ''G/W/P''"
    by (simp add: phyrexian_iff hybrid_iff re_COLOR_def)
  with classifier_exclusive_up_to_hybrid_phyrexian[of "''G/W/P''"] show ?thesis
    by blast
qed

text \<open>The token \<open>W/U/P\<close> is accepted by two of the seven predicates.\<close>

theorem classifier_overlap_counterexample:
  "phyrexian ''W/U/P'' \<and> hybrid ''W/U/P'' \<and>
   length (filter id
      [generic ''W/U/P'', variable ''W/U/P'', phyrexian ''W/U/P'', hybrid ''W/U/P'',
       twobrid ''W/U/P'', half ''W/U/P'', colored ''W/U/P'']) = 2"
  by code_simp




lemma digit_value_nat: "re_DIGIT c \<Longrightarrow> digit_value c = int (of_char c - 48)"
  by (auto simp: re_DIGIT_def digit_value_def)

lemma foldl_digits:
  "list_all re_DIGIT ds \<Longrightarrow>
     foldl (\<lambda>n c. 10 * n + digit_value c) (int k) ds
       = int (foldl (\<lambda>n c. 10 * n + (of_char c - 48)) k ds)"
proof (induction ds arbitrary: k)
  case Nil
  then show ?case by simp
next
  case (Cons d ds)
  then have d: "re_DIGIT d" and ds: "list_all re_DIGIT ds" by simp_all
  have "10 * int k + digit_value d = int (10 * k + (of_char d - 48))"
    by (simp add: digit_value_nat[OF d])
  with Cons.IH[OF ds, of "10 * k + (of_char d - 48)"] show ?case by simp
qed

lemma py_int_decimal: "list_all re_DIGIT t \<Longrightarrow> py_int t = int (decimal t)"
proof -
  assume a: "list_all re_DIGIT t"
  then have tw: "takeWhile re_DIGIT t = t" by (simp add: list_all_iff)
  show ?thesis unfolding py_int_def decimal_def tw
    using foldl_digits[OF a, of 0] by simp
qed

lemma generic_no_newline:
  assumes "CHR 0x0A \<notin> set t"
  shows "generic t \<longleftrightarrow> t \<noteq> [] \<and> list_all re_DIGIT t"
proof
  assume "generic t"
  then obtain ds r where t: "t = ds @ r" "ds \<noteq> []" "list_all re_DIGIT ds"
    and r: "r = [] \<or> r = [CHR 0x0A]"
    by (auto simp: generic_iff)
  from r assms t have "r = []" by auto
  with t show "t \<noteq> [] \<and> list_all re_DIGIT t" by simp
next
  assume "t \<noteq> [] \<and> list_all re_DIGIT t"
  then have "t = t @ [] \<and> t \<noteq> [] \<and> list_all re_DIGIT t \<and> ([] = [] \<or> [] = [CHR 0x0A])" by simp
  then show "generic t" unfolding generic_iff by blast
qed



lemma shape_of_generic:
  assumes "CHR 0x0A \<notin> set t" and "generic t"
  shows "shape_of t = Some (Generic (decimal t))" and "py_int t = int (decimal t)"
  using assms generic_no_newline[OF assms(1)] py_int_decimal[of t]
  by (simp_all add: shape_of_def)

lemma shape_of_not_generic:
  assumes "CHR 0x0A \<notin> set t" and "\<not> generic t"
  shows "shape_of t = letters_shape t"
  using assms generic_no_newline[OF assms(1)] by (auto simp: shape_of_def)




section \<open>Properties of the colour resolver\<close>

lemma color_not_slash: "re_COLOR a \<Longrightarrow> a \<noteq> CHR ''/''"
  by (auto simp: re_COLOR_def)

lemma split_hybrid:
  "re_COLOR a \<Longrightarrow> re_COLOR b \<Longrightarrow> split CHR ''/'' [a, CHR ''/'', b] = [[a], [b]]"
  "re_COLOR a \<Longrightarrow> re_COLOR b \<Longrightarrow>
     split CHR ''/'' [a, CHR ''/'', b, CHR ''/'', CHR ''P''] = [[a], [b], ''P'']"
  "re_COLOR b \<Longrightarrow> split CHR ''/'' [CHR ''2'', CHR ''/'', b] = [''2'', [b]]"
  by (auto dest: color_not_slash)

lemma letters_colors:
  assumes "CHR 0x0A \<notin> set t" and "\<not> generic t"
  shows "map_sum id colors_from_colored_symbols (colored_symbols_step cs t) =
     (case map_option shape_colors (letters_shape t) of
        Some (Some c) \<Rightarrow>
          Inr \<lparr>required = set (required cs) \<union> required c,
               also_touched = set (also_touched cs) \<union> also_touched c\<rparr>
      | _ \<Rightarrow> Inl InvalidManaCostException)"
  using assms class_disjoint
  by (cases t rule: letters_shape.cases)
     (auto simp: colored_symbols_step_def colors_from_colored_symbols_def item_def char_at_def
        split_hybrid
        variable_iff phyrexian_iff hybrid_iff twobrid_iff half_iff colored_iff)


lemma generic_colors:
  assumes "CHR 0x0A \<notin> set t" and "generic t"
  shows "colored_symbols_step cs t = Inr cs"
    and "token_colors t = Some \<lparr>required = {}, also_touched = {}\<rparr>"
  using assms shape_of_generic(1)[OF assms]
  by (simp_all add: colored_symbols_step_def token_colors_def)

lemma colored_symbols_step_by_shape:
  assumes "CHR 0x0A \<notin> set t"
  shows "map_sum id colors_from_colored_symbols (colored_symbols_step cs t) =
     (case token_colors t of
        None \<Rightarrow> Inl InvalidManaCostException
      | Some c \<Rightarrow>
          Inr \<lparr>required = set (required cs) \<union> required c,
               also_touched = set (also_touched cs) \<union> also_touched c\<rparr>)"
proof (cases "generic t")
  case True
  from generic_colors(1)[OF assms True, of cs] generic_colors(2)[OF assms True] show ?thesis
    by (simp add: colors_from_colored_symbols_def)
next
  case False
  from letters_colors[OF assms False, of cs] shape_of_not_generic[OF assms False]
  show ?thesis
    by (simp add: token_colors_def split: option.splits)
qed

lemma colored_symbols_loop_by_shape:
  "\<forall>t\<in>set ts. CHR 0x0A \<notin> set t \<Longrightarrow>
     map_sum id colors_from_colored_symbols (colored_symbols_loop cs ts) =
       (case classify_colors_spec ts of
          Inl e \<Rightarrow> Inl e
        | Inr c \<Rightarrow>
            Inr \<lparr>required = set (required cs) \<union> required c,
                 also_touched = set (also_touched cs) \<union> also_touched c\<rparr>)"
proof (induction ts arbitrary: cs)
  case Nil
  then show ?case by (simp add: colors_from_colored_symbols_def)
next
  case (Cons t ts)
  then have nl: "CHR 0x0A \<notin> set t" and rest: "\<forall>t\<in>set ts. CHR 0x0A \<notin> set t" by simp_all
  note st = colored_symbols_step_by_shape[OF nl, of cs]
  show ?case
  proof (cases "colored_symbols_step cs t")
    case (Inl e)
    with st show ?thesis by (simp split: option.splits)
  next
    case (Inr cs')
    with st obtain c where c: "token_colors t = Some c"
      and cs': "set (required cs') = set (required cs) \<union> required c"
               "set (also_touched cs') = set (also_touched cs) \<union> also_touched c"
      by (auto simp: colors_from_colored_symbols_def split: option.splits)
    from Cons.IH[OF rest, of cs'] Inr c cs' show ?thesis
      by (auto simp: Un_assoc split: sum.splits)
  qed
qed

lemma colors_by_shape:
  assumes "\<forall>t\<in>set ts. CHR 0x0A \<notin> set t"
  shows "colors ts = classify_colors_spec ts"
proof -
  have "colors ts = map_sum id colors_from_colored_symbols (colored_symbols ts)"
    by (simp add: colors_def split: sum.splits)
  also have "\<dots> = classify_colors_spec ts"
    using colored_symbols_loop_by_shape[OF assms, of "\<lparr>required = [], also_touched = []\<rparr>"]
    by (simp add: colored_symbols_def split: sum.splits)
  finally show ?thesis .
qed

lemma colors_hybrid_phyrexian:
  "colors [''W/U/P''] = Inr \<lparr>required = {}, also_touched = {''W'', ''U''}\<rparr>"
  by code_simp

text \<open>
  C5. On a token that is a colour letter followed by a line feed, \<^verbatim>\<open>colored\<close> holds, because
  \<^verbatim>\<open>$\<close> matches before a final newline: \<^verbatim>\<open>colored_symbols\<close> does not raise on this token, which
  has none of the shapes, and records the two-character string as a required colour. (On
  token sequences without a line feed the policy is the one of \<open>colors_by_shape\<close>.)
\<close>

theorem colors_trailing_newline:
  "colored [CHR ''W'', CHR 0x0A] \<and>
   colored_symbols [[CHR ''W'', CHR 0x0A]]
     = Inr \<lparr>required = [[CHR ''W'', CHR 0x0A]], also_touched = []\<rparr> \<and>
   colors [[CHR ''W'', CHR 0x0A]]
     = Inr \<lparr>required = {[CHR ''W'', CHR 0x0A]}, also_touched = {}\<rparr>"
  by code_simp


section \<open>Inputs the tokenizer accepts although they are malformed\<close>








text \<open>
  C10. \<^verbatim>\<open>parse\<close> accepts \<open>2X/P\<close> and returns the tokens \<open>2\<close> and \<open>X/P\<close>; none of the seven
  predicates holds of \<open>X/P\<close>, and both \<^verbatim>\<open>cmc\<close> (on the string) and \<^verbatim>\<open>colors\<close> and
  \<^verbatim>\<open>colored_symbols\<close> (on the tokens) raise.
\<close>

theorem parse_accepts_unclassifiable:
  "parse ''2X/P'' = Inr [''2'', ''X/P''] \<and>
   \<not> generic ''X/P'' \<and> \<not> variable ''X/P'' \<and> \<not> phyrexian ''X/P'' \<and> \<not> hybrid ''X/P'' \<and>
   \<not> twobrid ''X/P'' \<and> \<not> half ''X/P'' \<and> \<not> colored ''X/P'' \<and>
   cmc ''2X/P'' = Inl InvalidManaCostException \<and>
   colors [''2'', ''X/P''] = Inl InvalidManaCostException \<and>
   colored_symbols [''2'', ''X/P''] = Inl InvalidManaCostException"
  by code_simp

section \<open>Properties of the orderer\<close>

lemma index_positions:
  "c \<in> set positions \<Longrightarrow> index positions c = Inr (wheel_index c)"
  by (auto simp: positions_def wheel_index_def)

lemma order_score_loop_sum:
  "set symbols \<subseteq> set positions \<Longrightarrow>
     order_score_loop score (wheel_index p) symbols
       = Inr (score + sum_list (map (\<lambda>q. forward_distance (fst q) (snd q)) (zip (p # symbols) symbols)))"
proof (induction symbols arbitrary: score p)
  case Nil
  then show ?case by simp
next
  case (Cons c cs)
  then have c: "c \<in> set positions" and cs: "set cs \<subseteq> set positions" by simp_all
  have d: "(if wheel_index c < wheel_index p then wheel_index c - wheel_index p + int (length positions)
            else wheel_index c - wheel_index p) = forward_distance p c"
    by (simp add: forward_distance_def positions_def Let_def)
  from Cons.IH[OF cs, of "score + forward_distance p c" c] index_positions[OF c] d
  show ?case by (simp add: Let_def)
qed

lemma filter_colorless:
  "filter (\<lambda>symbol. symbol \<notin> set [''C'', ''S'']) xs = filter (\<lambda>c. c \<noteq> ''C'' \<and> c \<noteq> ''S'') xs"
  by (rule filter_cong) auto

lemma color_symbols_positions:
  "c \<in> color_symbols \<Longrightarrow> c \<noteq> ''C'' \<Longrightarrow> c \<noteq> ''S'' \<Longrightarrow> c \<in> set positions"
  by (auto simp: color_symbols_def positions_def)

lemma order_score_total:
  assumes "set symbols \<subseteq> color_symbols"
  shows "\<exists>k. order_score symbols = Inr k"
proof -
  define cs where "cs = filter (\<lambda>c. c \<noteq> ''C'' \<and> c \<noteq> ''S'') symbols"
  have sub: "set cs \<subseteq> set positions"
    using assms color_symbols_positions by (auto simp: cs_def)
  show ?thesis
  proof (cases cs)
    case Nil
    then show ?thesis
      by (simp add: order_score_def filter_colorless cs_def[symmetric])
  next
    case (Cons first rest)
    with sub have f: "first \<in> set positions" and r: "set rest \<subseteq> set positions" by simp_all
    from order_score_loop_sum[OF r, of 0 first] index_positions[OF f] Cons
    show ?thesis
      by (simp add: order_score_def filter_colorless cs_def[symmetric])
  qed
qed

text \<open>
  C7. For a sequence of colour symbols, \<^verbatim>\<open>order_score\<close> removes every \<open>C\<close> and \<open>S\<close>; the score
  of an empty remainder is 0; otherwise it is ten times the sum, over the consecutive pairs,
  of the forward distance on the cycle \<open>W, U, B, R, G\<close> (the difference of the indices, plus 5
  when it is negative), plus the index of the first remaining colour.
\<close>

theorem order_score_formula:
  assumes "set symbols \<subseteq> color_symbols"
  shows "order_score symbols = Inr (wheel_score symbols)"
proof -
  define cs where "cs = filter (\<lambda>c. c \<noteq> ''C'' \<and> c \<noteq> ''S'') symbols"
  have sub: "set cs \<subseteq> set positions"
    using assms color_symbols_positions by (auto simp: cs_def)
  show ?thesis
  proof (cases cs)
    case Nil
    then show ?thesis
      by (simp add: order_score_def wheel_score_def filter_colorless cs_def[symmetric])
  next
    case (Cons first rest)
    with sub have f: "first \<in> set positions" and r: "set rest \<subseteq> set positions" by simp_all
    have "order_score_loop 0 (wheel_index first) rest
            = Inr (sum_list (map (\<lambda>q. forward_distance (fst q) (snd q)) (zip cs (tl cs))))"
      using order_score_loop_sum[OF r, of 0 first] Cons by simp
    with index_positions[OF f] Cons show ?thesis
      by (simp add: order_score_def wheel_score_def filter_colorless cs_def[symmetric])
  qed
qed

theorem order_score_formula_witness:
  "set [''C'', ''U'', ''S'', ''G'', ''W''] \<subseteq> color_symbols \<and>
   order_score [''C'', ''U'', ''S'', ''G'', ''W''] = Inr 41 \<and>
   wheel_score [''C'', ''U'', ''S'', ''G'', ''W''] = 41"
proof -
  have h: "set [''C'', ''U'', ''S'', ''G'', ''W''] \<subseteq> color_symbols"
    by (simp add: color_symbols_def)
  have "wheel_score [''C'', ''U'', ''S'', ''G'', ''W''] = 41" by code_simp
  with order_score_formula[OF h] h show ?thesis by simp
qed

lemma index_sort_positions:
  "c \<in> color_symbols \<Longrightarrow> index sort_positions (Some c) = Inr (priority c)"
  by (auto simp: color_symbols_def sort_positions_def priority_def)

lemma sum_list_upt_Suc:
  "sum_list (map f [0..<Suc n]) = f 0 + sum_list (map (\<lambda>k. f (Suc k)) [0..<n])"
proof -
  have "[0..<Suc n] = 0 # map Suc [0..<n]"
    by (simp add: upt_conv_Cons map_Suc_upt del: upt_Suc)
  then show ?thesis by (simp add: comp_def del: upt_Suc)
qed

lemma sort_score_loop_sum:
  "set symbols \<subseteq> color_symbols \<Longrightarrow>
     sort_score_loop score i symbols
       = Inr (score + sum_list (map (\<lambda>k. priority (symbols ! k) * 10 * (i + int k)) [0..<length symbols]))"
proof (induction symbols arbitrary: score i)
  case Nil
  then show ?case by simp
next
  case (Cons c cs)
  then have c: "c \<in> color_symbols" and cs: "set cs \<subseteq> color_symbols" by simp_all
  have "sum_list (map (\<lambda>k. priority ((c # cs) ! k) * 10 * (i + int k)) [0..<length (c # cs)])
        = priority c * 10 * i
          + sum_list (map (\<lambda>k. priority (cs ! k) * 10 * (i + 1 + int k)) [0..<length cs])"
    using sum_list_upt_Suc[of "\<lambda>k. priority ((c # cs) ! k) * 10 * (i + int k)" "length cs"]
    by (simp add: algebra_simps del: upt_Suc)
  with Cons.IH[OF cs, of "score + priority c * 10 * i" "i + 1"] index_sort_positions[OF c]
  show ?case by simp
qed

text \<open>
  C9. For a sequence of colour symbols, \<^verbatim>\<open>sort_score\<close> is the sum, over the reversed sequence
  with positions \<open>i\<close> counted from 1, of the index of the symbol in
  \<open>[none, C, S, W, U, B, R, G]\<close> times 10 times \<open>i\<close>.
\<close>

theorem sort_score_formula:
  assumes "set symbols \<subseteq> color_symbols"
  shows "sort_score symbols = Inr (sort_score_spec symbols)"
proof -
  from assms have "set (rev symbols) \<subseteq> color_symbols" by simp
  from sort_score_loop_sum[OF this, of 0 1]
  have "sort_score_loop 0 1 (rev symbols)
          = Inr (sum_list (map (\<lambda>k. priority (rev symbols ! k) * 10 * (1 + int k))
                   [0..<length symbols]))"
    by simp
  then show ?thesis
    by (simp add: sort_score_def sort_score_spec_def add.commute)
qed

theorem sort_score_formula_witness:
  "set [''G'', ''W'', ''U''] \<subseteq> color_symbols \<and>
   sort_score [''G'', ''W'', ''U''] = Inr 310 \<and> sort_score_spec [''G'', ''W'', ''U''] = 310"
proof -
  have h: "set [''G'', ''W'', ''U''] \<subseteq> color_symbols"
    by (simp add: color_symbols_def)
  have "sort_score_spec [''G'', ''W'', ''U''] = 310" by code_simp
  with sort_score_formula[OF h] h show ?thesis by simp
qed


lemma picks_mset: "(y, ys) \<in> set (picks xs) \<Longrightarrow> mset xs = add_mset y (mset ys)"
  by (induction xs arbitrary: y ys) auto

lemma picks_length: "(y, ys) \<in> set (picks xs) \<Longrightarrow> length xs = Suc (length ys)"
proof (induction xs arbitrary: y ys)
  case Nil
  then show ?case by simp
next
  case (Cons x xs)
  from Cons.prems have "(y, ys) = (x, xs) \<or> (y, ys) \<in> (\<lambda>p. (fst p, x # snd p)) ` set (picks xs)"
    by simp
  then show ?case
  proof
    assume "(y, ys) = (x, xs)"
    then show ?thesis by simp
  next
    assume "(y, ys) \<in> (\<lambda>p. (fst p, x # snd p)) ` set (picks xs)"
    then obtain p where p: "p \<in> set (picks xs)" and e: "(y, ys) = (fst p, x # snd p)"
      by (rule imageE)
    from p have "(fst p, snd p) \<in> set (picks xs)" by simp
    from Cons.IH[OF this] e show ?thesis by simp
  qed
qed

lemma picks_complete: "y \<in> set xs \<Longrightarrow> \<exists>ys. (y, ys) \<in> set (picks xs)"
proof (induction xs)
  case Nil
  then show ?case by simp
next
  case (Cons x xs)
  show ?case
  proof (cases "y = x")
    case True
    then show ?thesis by auto
  next
    case False
    with Cons.prems have "y \<in> set xs" by simp
    from Cons.IH[OF this] obtain ys where "(y, ys) \<in> set (picks xs)" by blast
    then have "(y, x # ys) \<in> set (picks (x # xs))" by force
    then show ?thesis by blast
  qed
qed

lemma permutations_r_sound:
  "n = length xs \<Longrightarrow> p \<in> set (permutations_r n xs) \<Longrightarrow> mset p = mset xs"
proof (induction n arbitrary: xs p)
  case 0
  then show ?case by simp
next
  case (Suc n)
  from Suc.prems(2) obtain y ys q where pk: "(y, ys) \<in> set (picks xs)"
    and q: "q \<in> set (permutations_r n ys)" and p: "p = y # q"
    by auto
  from picks_length[OF pk] Suc.prems(1) have "n = length ys" by simp
  from Suc.IH[OF this q] picks_mset[OF pk] p show ?case by simp
qed

lemma permutations_r_complete:
  "mset p = mset xs \<Longrightarrow> p \<in> set (permutations_r (length xs) xs)"
proof (induction p arbitrary: xs)
  case Nil
  then show ?case by simp
next
  case (Cons y q)
  then have "y \<in> set xs" by (metis list.set_intros(1) mset_eq_setD)
  from picks_complete[OF this] obtain ys where pk: "(y, ys) \<in> set (picks xs)" by blast
  from picks_mset[OF pk] Cons.prems have "mset q = mset ys" by simp
  from Cons.IH[OF this] have q: "q \<in> set (permutations_r (length ys) ys)" .
  from picks_length[OF pk] have l: "length xs = Suc (length ys)" .
  from pk q show ?case unfolding l by force
qed

lemma set_permutations: "set (permutations xs) = {p. mset p = mset xs}"
proof (intro set_eqI iffI)
  fix p
  assume "p \<in> set (permutations xs)"
  then have "p \<in> set (permutations_r (length xs) xs)" by (simp only: permutations_def)
  from permutations_r_sound[OF refl this] show "p \<in> {p. mset p = mset xs}"
    by (rule CollectI)
next
  fix p
  assume "p \<in> {p. mset p = mset xs}"
  then have "mset p = mset xs" by (rule CollectD)
  from permutations_r_complete[OF this] show "p \<in> set (permutations xs)"
    by (simp only: permutations_def)
qed

lemma hd_insort_key:
  "hd (insort_key f x ys) = (if ys = [] \<or> f x \<le> f (hd ys) then x else hd ys)"
  by (cases ys) auto

lemma sort_key_Nil_iff: "sort_key f xs = [] \<longleftrightarrow> xs = []"
  by (metis length_0_conv length_sort)

lemma hd_sort_key_first_min:
  fixes f :: "'a \<Rightarrow> int"
  shows "xs \<noteq> [] \<Longrightarrow>
     \<exists>i<length xs. hd (sort_key f xs) = xs ! i \<and> (\<forall>j<length xs. f (xs ! i) \<le> f (xs ! j)) \<and>
        (\<forall>j<i. f (xs ! i) < f (xs ! j))"
proof (induction xs)
  case Nil
  then show ?case by simp
next
  case (Cons x xs)
  show ?case
  proof (cases "xs = []")
    case True
    then show ?thesis by simp
  next
    case False
    from Cons.IH[OF False] obtain i where i: "i < length xs"
      and h: "hd (sort_key f xs) = xs ! i"
      and mn: "\<forall>j<length xs. f (xs ! i) \<le> f (xs ! j)"
      and fst: "\<forall>j<i. f (xs ! i) < f (xs ! j)"
      by blast
    have ne: "sort_key f xs \<noteq> []" using False by (simp add: sort_key_Nil_iff)
    show ?thesis
    proof (cases "f x \<le> f (xs ! i)")
      case True
      have "hd (sort_key f (x # xs)) = (x # xs) ! 0"
        using True h ne by (simp add: hd_insort_key)
      moreover have "\<forall>j<length (x # xs). f ((x # xs) ! 0) \<le> f ((x # xs) ! j)"
      proof (intro allI impI)
        fix j assume "j < length (x # xs)"
        show "f ((x # xs) ! 0) \<le> f ((x # xs) ! j)"
        proof (cases j)
          case 0
          then show ?thesis by simp
        next
          case (Suc j')
          with \<open>j < length (x # xs)\<close> mn have "f (xs ! i) \<le> f (xs ! j')" by simp
          with True Suc show ?thesis by simp
        qed
      qed
      ultimately show ?thesis by (intro exI[of _ 0]) simp
    next
      case False
      have "hd (sort_key f (x # xs)) = (x # xs) ! Suc i"
        using False h ne by (simp add: hd_insort_key)
      moreover have "\<forall>j<length (x # xs). f ((x # xs) ! Suc i) \<le> f ((x # xs) ! j)"
      proof (intro allI impI)
        fix j assume "j < length (x # xs)"
        then show "f ((x # xs) ! Suc i) \<le> f ((x # xs) ! j)"
          using False mn by (cases j) auto
      qed
      moreover have "\<forall>j<Suc i. f ((x # xs) ! Suc i) < f ((x # xs) ! j)"
      proof (intro allI impI)
        fix j assume "j < Suc i"
        then show "f ((x # xs) ! Suc i) < f ((x # xs) ! j)"
          using False fst by (cases j) auto
      qed
      ultimately show ?thesis using i by (intro exI[of _ "Suc i"]) simp
    qed
  qed
qed

lemma keyed_total:
  "\<forall>x\<in>set xs. key x = Inr (g x) \<Longrightarrow> keyed key xs = Inr (map (\<lambda>x. (g x, x)) xs)"
  by (induction xs) auto

lemma insort_key_keyed:
  "insort_key fst (g x, x) (map (\<lambda>x. (g x, x)) ys) = map (\<lambda>x. (g x, x)) (insort_key g x ys)"
  by (induction ys) auto

lemma sort_key_keyed:
  "sort_key fst (map (\<lambda>x. (g x, x)) xs) = map (\<lambda>x. (g x, x)) (sort_key g xs)"
  by (induction xs) (auto simp: insort_key_keyed)

lemma sorted_key_total:
  assumes "\<forall>x\<in>set xs. key x = Inr (g x)"
  shows "sorted_key key xs = Inr (sort_key g xs)"
  using keyed_total[OF assms] by (simp add: sorted_key_def sort_key_keyed comp_def)

lemma order_head:
  assumes "set symbols \<subseteq> color_symbols"
  shows "order symbols
           = Inr (hd (sort_key (\<lambda>p. projr (order_score p)) (permutations symbols)))"
    and "permutations symbols \<noteq> []"
    and "\<forall>p\<in>set (permutations symbols). order_score p = Inr (projr (order_score p))"
proof -
  let ?g = "\<lambda>p. projr (order_score p)"
  show sc: "\<forall>p\<in>set (permutations symbols). order_score p = Inr (?g p)"
  proof
    fix p assume "p \<in> set (permutations symbols)"
    then have "mset p = mset symbols" by (simp add: set_permutations)
    then have "set p = set symbols" by (rule mset_eq_setD)
    with assms order_score_total[of p] obtain k where "order_score p = Inr k" by auto
    then show "order_score p = Inr (?g p)" by simp
  qed
  have "symbols \<in> set (permutations symbols)" by (simp add: set_permutations)
  then show ne: "permutations symbols \<noteq> []" by auto
  then have "sort_key ?g (permutations symbols) \<noteq> []" by (simp add: sort_key_Nil_iff)
  with ne show "order symbols = Inr (hd (sort_key ?g (permutations symbols)))"
    using sorted_key_total[OF sc] by (simp add: order_def item_def hd_conv_nth)
qed

text \<open>
  C6. For colour symbols, \<^verbatim>\<open>order\<close> returns a permutation of its input whose \<^verbatim>\<open>order_score\<close> is
  the least among all permutations of the input, and it is the first permutation with that
  score in the order in which \<^verbatim>\<open>itertools.permutations\<close> generates them.
\<close>

theorem order_first_minimum:
  assumes "set symbols \<subseteq> color_symbols"
  shows "\<exists>p k i. order symbols = Inr p \<and> mset p = mset symbols \<and> order_score p = Inr k \<and>
     (\<forall>q. mset q = mset symbols \<longrightarrow> (\<exists>k'. order_score q = Inr k' \<and> k \<le> k')) \<and>
     i < length (permutations symbols) \<and> permutations symbols ! i = p \<and>
     (\<forall>j<i. \<exists>k'. order_score (permutations symbols ! j) = Inr k' \<and> k < k')"
proof -
  let ?ps = "permutations symbols"
  let ?g = "\<lambda>p. projr (order_score p)"
  note oh = order_head[OF assms]
  from hd_sort_key_first_min[OF oh(2), of ?g] obtain i where i: "i < length ?ps"
    and h: "hd (sort_key ?g ?ps) = ?ps ! i"
    and mn: "\<forall>j<length ?ps. ?g (?ps ! i) \<le> ?g (?ps ! j)"
    and fst: "\<forall>j<i. ?g (?ps ! i) < ?g (?ps ! j)"
    by blast
  let ?p = "?ps ! i"
  from i have pin: "?p \<in> set ?ps" by simp
  have 1: "order symbols = Inr ?p" using oh(1) h by simp
  have 2: "mset ?p = mset symbols" using pin by (simp add: set_permutations)
  have 3: "order_score ?p = Inr (?g ?p)" using oh(3) pin by blast
  have 4: "\<forall>q. mset q = mset symbols \<longrightarrow> (\<exists>k'. order_score q = Inr k' \<and> ?g ?p \<le> k')"
  proof (intro allI impI)
    fix q assume "mset q = mset symbols"
    then have qin: "q \<in> set ?ps" by (simp add: set_permutations)
    then obtain j where "j < length ?ps" "?ps ! j = q" by (auto simp: in_set_conv_nth)
    with mn have "?g ?p \<le> ?g q" by auto
    moreover from oh(3) qin have "order_score q = Inr (?g q)" by blast
    ultimately show "\<exists>k'. order_score q = Inr k' \<and> ?g ?p \<le> k'" by blast
  qed
  have 5: "\<forall>j<i. \<exists>k'. order_score (?ps ! j) = Inr k' \<and> ?g ?p < k'"
  proof (intro allI impI)
    fix j assume j: "j < i"
    with i have "?ps ! j \<in> set ?ps" by simp
    with oh(3) have "order_score (?ps ! j) = Inr (?g (?ps ! j))" by blast
    moreover from fst j have "?g ?p < ?g (?ps ! j)" by blast
    ultimately show "\<exists>k'. order_score (?ps ! j) = Inr k' \<and> ?g ?p < k'" by blast
  qed
  show ?thesis
  proof (intro exI conjI)
    show "order symbols = Inr ?p" by (rule 1)
    show "mset ?p = mset symbols" by (rule 2)
    show "order_score ?p = Inr (?g ?p)" by (rule 3)
    show "\<forall>q. mset q = mset symbols \<longrightarrow> (\<exists>k'. order_score q = Inr k' \<and> ?g ?p \<le> k')"
      by (rule 4)
    show "i < length ?ps" by (rule i)
    show "?ps ! i = ?p" by simp
    show "\<forall>j<i. \<exists>k'. order_score (?ps ! j) = Inr k' \<and> ?g ?p < k'" by (rule 5)
  qed
qed

theorem order_first_minimum_witness:
  "set [''B'', ''W''] \<subseteq> color_symbols \<and> order [''B'', ''W''] = Inr [''W'', ''B''] \<and>
   (\<exists>p k i. order [''B'', ''W''] = Inr p \<and> mset p = mset [''B'', ''W''] \<and>
      order_score p = Inr k \<and>
      (\<forall>q. mset q = mset [''B'', ''W''] \<longrightarrow> (\<exists>k'. order_score q = Inr k' \<and> k \<le> k')) \<and>
      i < length (permutations [''B'', ''W'']) \<and> permutations [''B'', ''W''] ! i = p \<and>
      (\<forall>j<i. \<exists>k'. order_score (permutations [''B'', ''W''] ! j) = Inr k' \<and> k < k'))"
proof -
  have h: "set [''B'', ''W''] \<subseteq> color_symbols" by (simp add: color_symbols_def)
  have o: "order [''B'', ''W''] = Inr [''W'', ''B'']" by code_simp
  from order_first_minimum[OF h] h o show ?thesis by blast
qed

lemma permutations_GWU:
  "permutations [''G'', ''W'', ''U''] =
     [[''G'', ''W'', ''U''], [''G'', ''U'', ''W''], [''W'', ''G'', ''U''],
      [''W'', ''U'', ''G''], [''U'', ''G'', ''W''], [''U'', ''W'', ''G'']]"
  by code_simp

text \<open>
  C8, as amended. In whatever order the three symbols \<open>G\<close>, \<open>W\<close>, \<open>U\<close> are given, \<^verbatim>\<open>order\<close>
  returns \<open>G, W, U\<close>, whose score is 24 (from \<open>G\<close> to \<open>W\<close> is 1, from \<open>W\<close> to \<open>U\<close> is 1, and
  \<open>G\<close> has index 4); \<open>W, U, G\<close> scores 40.
\<close>

theorem order_GWU:
  assumes "mset symbols = mset [''G'', ''W'', ''U'']"
  shows "order symbols = Inr [''G'', ''W'', ''U''] \<and>
     order_score [''G'', ''W'', ''U''] = Inr 24 \<and> order_score [''W'', ''U'', ''G''] = Inr 40"
proof -
  from assms have "symbols \<in> set (permutations [''G'', ''W'', ''U''])"
    by (simp only: set_permutations mem_Collect_eq)
  then consider "symbols = [''G'', ''W'', ''U'']" | "symbols = [''G'', ''U'', ''W'']"
    | "symbols = [''W'', ''G'', ''U'']" | "symbols = [''W'', ''U'', ''G'']"
    | "symbols = [''U'', ''G'', ''W'']" | "symbols = [''U'', ''W'', ''G'']"
    unfolding permutations_GWU by auto
  then have "order symbols = Inr [''G'', ''W'', ''U'']"
  proof cases
    case 1
    have "order [''G'', ''W'', ''U''] = Inr [''G'', ''W'', ''U'']" by code_simp
    with 1 show ?thesis by simp
  next
    case 2
    have "order [''G'', ''U'', ''W''] = Inr [''G'', ''W'', ''U'']" by code_simp
    with 2 show ?thesis by simp
  next
    case 3
    have "order [''W'', ''G'', ''U''] = Inr [''G'', ''W'', ''U'']" by code_simp
    with 3 show ?thesis by simp
  next
    case 4
    have "order [''W'', ''U'', ''G''] = Inr [''G'', ''W'', ''U'']" by code_simp
    with 4 show ?thesis by simp
  next
    case 5
    have "order [''U'', ''G'', ''W''] = Inr [''G'', ''W'', ''U'']" by code_simp
    with 5 show ?thesis by simp
  next
    case 6
    have "order [''U'', ''W'', ''G''] = Inr [''G'', ''W'', ''U'']" by code_simp
    with 6 show ?thesis by simp
  qed
  moreover have "order_score [''G'', ''W'', ''U''] = Inr 24" by code_simp
  moreover have "order_score [''W'', ''U'', ''G''] = Inr 40" by code_simp
  ultimately show ?thesis by simp
qed

theorem order_GWU_witness:
  "mset [''U'', ''G'', ''W''] = mset [''G'', ''W'', ''U''] \<and>
   order [''U'', ''G'', ''W''] = Inr [''G'', ''W'', ''U'']"
proof -
  have h: "mset [''U'', ''G'', ''W''] = mset [''G'', ''W'', ''U'']" by simp
  from order_GWU[OF h] h show ?thesis by blast
qed

text \<open>On \<open>G, W, U\<close> the result is not \<open>W, U, G\<close>.\<close>

theorem order_GWU_counterexample:
  "order [''G'', ''W'', ''U''] = Inr [''G'', ''W'', ''U''] \<and>
   order [''G'', ''W'', ''U''] \<noteq> Inr [''W'', ''U'', ''G''] \<and>
   order_score [''G'', ''W'', ''U''] = Inr 24 \<and> order_score [''W'', ''U'', ''G''] = Inr 40"
  by code_simp

end
